theory Spec2Isabelle
  imports Complex_Main
begin

section \<open>Data model of the PoseCamera component\<close>

text \<open>
  JavaScript numbers are binary64 doubles. They are modelled as reals, and the additions,
  subtractions and divisions that \<open>processPose\<close> performs on them are rounded by \<open>fl\<close>
  (section on double-precision arithmetic below). \<open>Math.min\<close>, \<open>Math.max\<close>, \<open>Math.abs\<close>
  and the comparisons are exact on doubles. NaN, the infinities and overflow are outside the
  model. \<open>Date.now()\<close> is an integer number of milliseconds and is passed in as a parameter.

  A keypoint object of the pose detector has the fields \<open>name\<close>, \<open>x\<close>, \<open>y\<close> and
  \<open>score\<close>; they carry the prefix \<open>kp_\<close> here.
\<close>

record keypoint =
  kp_name :: string
  kp_x :: real
  kp_y :: real
  kp_score :: real

record pose =
  keypoints :: "keypoint list"

text \<open>The two values that \<open>state.phase\<close> ever holds: \<open>"top"\<close> and \<open>"bottom"\<close>.\<close>

datatype phase = Top | Bottom

text \<open>
  \<open>repStateRef.current\<close>. The object is created as \<open>{ phase: "top", repCount: 0 }\<close>, so
  \<open>topY\<close> and \<open>bottomY\<close> start out \<open>undefined\<close>: \<open>None\<close> here. For \<open>bottomY\<close>, \<open>None\<close>
  stands for any non-number (\<open>undefined\<close> or the NaN that \<open>Math.max(undefined, y)\<close> yields).
\<close>

record repState =
  phase :: phase
  topY :: "real option"
  bottomY :: "real option"
  repCount :: nat

text \<open>\<open>formStatsRef.current\<close>.\<close>

record formStats =
  angles :: "real list"
  stacks :: "real list"
  tilts :: "real list"
  lastFeedbackTime :: int

text \<open>
  The mutable state of one mounted component: the two refs and the three pieces of React
  state that \<open>processPose\<close> publishes to (\<open>repCount\<close>, \<open>feedback\<close>, \<open>score\<close>).
\<close>

record session =
  repStateRef :: repState
  formStatsRef :: formStats
  ui_repCount :: nat
  ui_feedback :: string
  ui_score :: real

text \<open>The state at mount time; \<open>t0\<close> is the value of \<open>Date.now()\<close> at the first render.\<close>

definition repState0 :: repState where
  "repState0 = \<lparr>phase = Top, topY = None, bottomY = None, repCount = 0\<rparr>"

definition session0 :: "int \<Rightarrow> session" where
  "session0 t0 =
     \<lparr>repStateRef = repState0,
      formStatsRef = \<lparr>angles = [], stacks = [], tilts = [], lastFeedbackTime = t0\<rparr>,
      ui_repCount = 0,
      ui_feedback = ''Start in a straight high plank and begin your first pushup.'',
      ui_score = 100\<rparr>"

section \<open>Double-precision arithmetic\<close>

text \<open>Rounding of a real to the nearest integer, ties to the even one.\<close>

definition rne :: "real \<Rightarrow> int" where
  "rne r =
     (let f = \<lfloor>r\<rfloor>
      in if r - of_int f < 1 / 2 then f
         else if r - of_int f > 1 / 2 then f + 1
         else if even f then f else f + 1)"

text \<open>
  The binary exponent of \<open>x\<close>, not below that of the smallest normal double, and the
  spacing of the doubles around \<open>x\<close> (53 significant bits; below \<open>2 ^ - 1022\<close> the
  spacing stays \<open>2 ^ - 1074\<close>).
\<close>

definition expo :: "real \<Rightarrow> int" where
  "expo x = max \<lfloor>log 2 \<bar>x\<bar>\<rfloor> (- 1022)"

definition ulp :: "real \<Rightarrow> real" where
  "ulp x = 2 powr of_int (expo x - 52)"

text \<open>Round to nearest, ties to even: the double that an operation with exact result \<open>x\<close> returns.\<close>

definition fl :: "real \<Rightarrow> real" where
  "fl x = sgn x * (of_int (rne (\<bar>x\<bar> / ulp x)) * ulp x)"

text \<open>The operators \<open>+\<close>, \<open>-\<close> and \<open>/\<close> of JavaScript on doubles.\<close>

definition fadd :: "real \<Rightarrow> real \<Rightarrow> real" where
  "fadd x y = fl (x + y)"

definition fsub :: "real \<Rightarrow> real \<Rightarrow> real" where
  "fsub x y = fl (x - y)"

definition fdiv :: "real \<Rightarrow> real \<Rightarrow> real" where
  "fdiv x y = fl (x / y)"

section \<open>Keypoint accessor\<close>

text \<open>\<open>pose.keypoints.find((kp) => kp.name === name && kp.score > 0.4)\<close>\<close>

definition getPoint :: "pose \<Rightarrow> string \<Rightarrow> keypoint option" where
  "getPoint p n = find (\<lambda>kp. kp_name kp = n \<and> kp_score kp > 4 / 10) (keypoints p)"

section \<open>Angle calculator\<close>

text \<open>\<open>Math.hypot\<close> on two arguments.\<close>

definition hypot :: "real \<Rightarrow> real \<Rightarrow> real" where
  "hypot u v = sqrt (u * u + v * v)"

text \<open>
  \<open>calculateAngle\<close> is taken over the reals: \<open>Math.hypot\<close> and \<open>Math.acos\<close> return
  approximations that the language does not fix bit for bit.
\<close>

definition calculateAngle :: "keypoint \<Rightarrow> keypoint \<Rightarrow> keypoint \<Rightarrow> real" where
  "calculateAngle a b c =
     (let abx = kp_x a - kp_x b; aby = kp_y a - kp_y b;
          cbx = kp_x c - kp_x b; cby = kp_y c - kp_y b;
          dot = abx * cbx + aby * cby;
          magAB = hypot abx aby;
          magCB = hypot cbx cby
      in if magAB = 0 \<or> magCB = 0 then 180
         else (let cosine = min (max (dot / (magAB * magCB)) (- 1)) 1
               in (arccos cosine * 180) / pi))"

section \<open>Form interpreter\<close>

text \<open>
  The three \<open>if\<close> statements of \<open>interpretForm\<close> in their order; each carries the pair
  (message, newScore) on. The initial message is overwritten by every branch of the first
  statement. The penalties are differences of small integers, which are exact in doubles.
\<close>

definition interpretForm :: "real \<Rightarrow> real \<Rightarrow> real \<Rightarrow> string \<times> real" where
  "interpretForm averageElbowAngle averageStack shoulderTilt =
     (let (message, newScore) =
            (''Solid pushup - keep elbows tracking toward your ribs.'', 100);
          (message, newScore) =
            (if averageElbowAngle < 75
             then (''Don't dive too deep - aim for about 90 deg at the elbows.'', newScore - 20)
             else if averageElbowAngle > 150
             then (''Lower more; get elbows to roughly 90 deg for full range.'', newScore - 15)
             else (''Nice elbow bend - controlled 90 deg range.'', newScore));
          (message, newScore) =
            (if averageStack > 90
             then (''Stack wrists under shoulders to avoid flaring the elbows.'', newScore - 20)
             else (message, newScore));
          (message, newScore) =
            (if shoulderTilt > 40
             then (''Keep shoulders level; avoid twisting on the way up.'', newScore - 15)
             else (message, newScore));
          newScore = max 60 (min 100 newScore)
      in (message, newScore))"

section \<open>Rep-phase state machine\<close>

definition downThreshold :: real where "downThreshold = 52"
definition upThreshold :: real where "upThreshold = 40"
definition minimumRange :: real where "minimumRange = 70"

text \<open>
  Lines 174 to 193 of \<open>processPose\<close>: the seeding of \<open>topY\<close> and \<open>bottomY\<close> on the first
  frame, then the branch on the phase. The result is the updated \<open>repStateRef.current\<close>
  and the argument of the \<open>setRepCount\<close> call, when there is one.

  \<open>(t0, b0)\<close> are \<open>state.topY\<close> and \<open>state.bottomY\<close> after the seeding. In the bottom
  phase with \<open>bottomY\<close> not a number, \<open>Math.max\<close> yields NaN and both comparisons are false.
  The three gates compare the rounded differences.
\<close>

definition repPhase :: "real \<Rightarrow> repState \<Rightarrow> repState \<times> nat option" where
  "repPhase shoulderY state =
     (let (t0, b0) = (case topY state of
                        None \<Rightarrow> (shoulderY, Some shoulderY)
                      | Some t \<Rightarrow> (t, bottomY state))
      in case phase state of
           Top \<Rightarrow>
             (let t1 = min t0 shoulderY
              in if fsub shoulderY t1 > downThreshold
                 then (state\<lparr>phase := Bottom, topY := Some t1, bottomY := Some shoulderY\<rparr>, None)
                 else (state\<lparr>topY := Some t1, bottomY := b0\<rparr>, None))
         | Bottom \<Rightarrow>
             (case b0 of
                None \<Rightarrow> (state\<lparr>topY := Some t0, bottomY := None\<rparr>, None)
              | Some b \<Rightarrow>
                  (let b1 = max b shoulderY
                   in if fsub b1 shoulderY > upThreshold \<and> fsub b1 t0 > minimumRange
                      then (state\<lparr>phase := Top, topY := Some shoulderY, bottomY := Some b1,
                                   repCount := repCount state + 1\<rparr>,
                            Some (repCount state + 1))
                      else (state\<lparr>topY := Some t0, bottomY := Some b1\<rparr>, None))))"

section \<open>Form statistics accumulator and flush\<close>

text \<open>
  Lines 195 to 212: the four remaining joints are looked up, and when all six are there the
  three metrics of the frame are pushed. The two shoulders are the ones found at the top of
  \<open>processPose\<close>. The sums, differences and halvings are rounded; the two elbow angles
  come from \<open>calculateAngle\<close> over the reals, and the properties below hold whatever
  values are pushed.
\<close>

definition accumulate :: "pose \<Rightarrow> keypoint \<Rightarrow> keypoint \<Rightarrow> formStats \<Rightarrow> formStats" where
  "accumulate p leftShoulder rightShoulder fs =
     (case getPoint p ''left_elbow'' of None \<Rightarrow> fs | Some leftElbow \<Rightarrow>
     (case getPoint p ''right_elbow'' of None \<Rightarrow> fs | Some rightElbow \<Rightarrow>
     (case getPoint p ''left_wrist'' of None \<Rightarrow> fs | Some leftWrist \<Rightarrow>
     (case getPoint p ''right_wrist'' of None \<Rightarrow> fs | Some rightWrist \<Rightarrow>
        (let leftElbowAngle = calculateAngle leftShoulder leftElbow leftWrist;
             rightElbowAngle = calculateAngle rightShoulder rightElbow rightWrist;
             averageElbowAngle = fdiv (fadd leftElbowAngle rightElbowAngle) 2;
             wristStackLeft = \<bar>fsub (kp_x leftShoulder) (kp_x leftWrist)\<bar>;
             wristStackRight = \<bar>fsub (kp_x rightShoulder) (kp_x rightWrist)\<bar>;
             averageStack = fdiv (fadd wristStackLeft wristStackRight) 2;
             shoulderTilt = \<bar>fsub (kp_y leftShoulder) (kp_y rightShoulder)\<bar>
         in fs\<lparr>angles := angles fs @ [averageElbowAngle],
                stacks := stacks fs @ [averageStack],
                tilts := tilts fs @ [shoulderTilt]\<rparr>)))))"

text \<open>
  \<open>xs.reduce((sum, val) => sum + val, 0) / xs.length\<close>: the running sum from 0, every
  addition rounded, then the rounded quotient by the length. The flush check calls it on
  non-empty sequences only.
\<close>

definition average :: "real list \<Rightarrow> real" where
  "average xs = fdiv (foldl (\<lambda>sum val. fadd sum val) 0 xs) (real (length xs))"

text \<open>The condition of the \<open>if\<close> at lines 216 to 221.\<close>

definition flushDue :: "int \<Rightarrow> formStats \<Rightarrow> bool" where
  "flushDue now fs \<longleftrightarrow>
     now - lastFeedbackTime fs \<ge> 3000 \<and>
     length (angles fs) > 0 \<and> length (stacks fs) > 0 \<and> length (tilts fs) > 0"

text \<open>Lines 214 to 240: the flush check that ends \<open>processPose\<close>.\<close>

definition flushCheck :: "int \<Rightarrow> session \<Rightarrow> session" where
  "flushCheck now s =
     (let fs = formStatsRef s
      in if flushDue now fs
         then (let avgAngle = average (angles fs);
                   avgStack = average (stacks fs);
                   avgTilt = average (tilts fs);
                   form = interpretForm avgAngle avgStack avgTilt
               in s\<lparr>ui_feedback := fst form, ui_score := snd form,
                     formStatsRef := \<lparr>angles = [], stacks = [], tilts = [],
                                      lastFeedbackTime = now\<rparr>\<rparr>)
         else s)"

section \<open>The frame pipeline\<close>

text \<open>
  \<open>processPose\<close>, with \<open>now\<close> the value that \<open>Date.now()\<close> returns in this call. A frame
  without both shoulders returns at line 166.
\<close>

definition processPose :: "pose \<Rightarrow> int \<Rightarrow> session \<Rightarrow> session" where
  "processPose p now s =
     (case getPoint p ''left_shoulder'' of None \<Rightarrow> s | Some leftShoulder \<Rightarrow>
     (case getPoint p ''right_shoulder'' of None \<Rightarrow> s | Some rightShoulder \<Rightarrow>
        (let shoulderY = fdiv (fadd (kp_y leftShoulder) (kp_y rightShoulder)) 2;
             (state, published) = repPhase shoulderY (repStateRef s);
             s1 = s\<lparr>repStateRef := state,
                    ui_repCount := (case published of None \<Rightarrow> ui_repCount s | Some n \<Rightarrow> n)\<rparr>;
             s2 = s1\<lparr>formStatsRef := accumulate p leftShoulder rightShoulder (formStatsRef s1)\<rparr>
         in flushCheck now s2)))"

text \<open>
  The frame loop calls \<open>processPose\<close> once per detected pose; a run of the loop is the list
  of the poses with the clock value of each call.
\<close>

fun processFrames :: "(pose \<times> int) list \<Rightarrow> session \<Rightarrow> session" where
  "processFrames [] s = s"
| "processFrames ((p, now) # fs) s = processFrames fs (processPose p now s)"

section \<open>Notions used to state the properties\<close>

text \<open>
  The shoulder height that \<open>processPose\<close> derives from a pose (line 168), when both
  shoulders are found; \<open>None\<close> for a frame that is skipped.
\<close>

definition shoulderY :: "pose \<Rightarrow> real option" where
  "shoulderY p =
     (case getPoint p ''left_shoulder'' of None \<Rightarrow> None | Some leftShoulder \<Rightarrow>
     (case getPoint p ''right_shoulder'' of None \<Rightarrow> None | Some rightShoulder \<Rightarrow>
        Some (fdiv (fadd (kp_y leftShoulder) (kp_y rightShoulder)) 2)))"

text \<open>The shoulder-y sequence that a run of frames feeds to the rep-phase machine.\<close>

definition observed :: "(pose \<times> int) list \<Rightarrow> real list" where
  "observed fs = List.map_filter (\<lambda>(p, now). shoulderY p) fs"

text \<open>The rep-phase machine run on a shoulder-y sequence.\<close>

fun feed :: "real list \<Rightarrow> repState \<Rightarrow> repState" where
  "feed [] st = st"
| "feed (y # ys) st = feed ys (fst (repPhase y st))"

text \<open>Total excursion of a sequence: its maximum minus its minimum.\<close>

definition excursion :: "real list \<Rightarrow> real" where
  "excursion ys = (if ys = [] then 0 else Max (set ys) - Min (set ys))"

text \<open>
  The extremes that the machine has stored and still uses: \<open>topY\<close>, and in phase bottom
  also \<open>bottomY\<close> (in phase top \<open>bottomY\<close> is overwritten before it is read).
\<close>

definition extremes :: "repState \<Rightarrow> real list" where
  "extremes st =
     (case topY st of None \<Rightarrow> [] | Some t \<Rightarrow> [t]) @
     (case phase st of
        Top \<Rightarrow> []
      | Bottom \<Rightarrow> (case bottomY st of None \<Rightarrow> [] | Some b \<Rightarrow> [b]))"

text \<open>The stored extremes lie in the band from \<open>lo\<close> to \<open>hi\<close>.\<close>

definition inBand :: "real \<Rightarrow> real \<Rightarrow> repState \<Rightarrow> bool" where
  "inBand lo hi st \<longleftrightarrow>
     (case topY st of None \<Rightarrow> True | Some t \<Rightarrow> lo \<le> t) \<and>
     (case phase st of
        Top \<Rightarrow> True
      | Bottom \<Rightarrow> (case bottomY st of None \<Rightarrow> True | Some b \<Rightarrow> b \<le> hi))"

text \<open>All six joints that the accumulator needs are available in the pose.\<close>

definition sixJoints :: "pose \<Rightarrow> bool" where
  "sixJoints p \<longleftrightarrow>
     getPoint p ''left_shoulder'' \<noteq> None \<and> getPoint p ''right_shoulder'' \<noteq> None \<and>
     getPoint p ''left_elbow'' \<noteq> None \<and> getPoint p ''right_elbow'' \<noteq> None \<and>
     getPoint p ''left_wrist'' \<noteq> None \<and> getPoint p ''right_wrist'' \<noteq> None"

text \<open>The three accumulator sequences of a session.\<close>

definition sequences :: "session \<Rightarrow> real list \<times> real list \<times> real list" where
  "sequences s = (angles (formStatsRef s), stacks (formStatsRef s), tilts (formStatsRef s))"

definition equalLengths :: "session \<Rightarrow> bool" where
  "equalLengths s \<longleftrightarrow>
     length (angles (formStatsRef s)) = length (stacks (formStatsRef s)) \<and>
     length (stacks (formStatsRef s)) = length (tilts (formStatsRef s))"

text \<open>Both shoulders are available in the pose: the frame is not skipped.\<close>

definition bothShoulders :: "pose \<Rightarrow> bool" where
  "bothShoulders p \<longleftrightarrow>
     getPoint p ''left_shoulder'' \<noteq> None \<and> getPoint p ''right_shoulder'' \<noteq> None"

subsection \<open>Example poses\<close>

text \<open>A keypoint detected with confidence 0.9.\<close>

definition joint :: "string \<Rightarrow> real \<Rightarrow> real \<Rightarrow> keypoint" where
  "joint n u v = \<lparr>kp_name = n, kp_x = u, kp_y = v, kp_score = 9 / 10\<rparr>"

text \<open>Only the two shoulders are detected, both at height \<open>v\<close>.\<close>

definition shoulderPose :: "real \<Rightarrow> pose" where
  "shoulderPose v = \<lparr>keypoints = [joint ''left_shoulder'' 0 v, joint ''right_shoulder'' 10 v]\<rparr>"

text \<open>All six joints are detected, shoulders at height \<open>v\<close>, both elbows bent at 90 degrees.\<close>

definition pushupPose :: "real \<Rightarrow> pose" where
  "pushupPose v =
     \<lparr>keypoints =
        [joint ''left_shoulder'' 0 v, joint ''right_shoulder'' 10 v,
         joint ''left_elbow'' 0 (v + 1), joint ''right_elbow'' 10 (v + 1),
         joint ''left_wrist'' 1 (v + 1), joint ''right_wrist'' 9 (v + 1)]\<rparr>"

text \<open>As \<open>pushupPose\<close>, but the left shoulder is detected with confidence 0.3 only.\<close>

definition hiddenShoulderPose :: "real \<Rightarrow> pose" where
  "hiddenShoulderPose v =
     \<lparr>keypoints =
        [\<lparr>kp_name = ''left_shoulder'', kp_x = 0, kp_y = v, kp_score = 3 / 10\<rparr>,
         joint ''right_shoulder'' 10 v,
         joint ''left_elbow'' 0 (v + 1), joint ''right_elbow'' 10 (v + 1),
         joint ''left_wrist'' 1 (v + 1), joint ''right_wrist'' 9 (v + 1)]\<rparr>"

section \<open>Form interpreter: test vectors and score range\<close>

text \<open>
  C2. The four test vectors of the form interpreter: \<open>(80, 50, 10)\<close> gives the good-range
  message with score 100, \<open>(60, 50, 10)\<close> the too-deep message with score 80,
  \<open>(80, 100, 10)\<close> the stack-wrists message with score 80, and \<open>(160, 100, 50)\<close> the
  level-shoulders message with score 60 (100 - 15 - 20 - 15 = 50, clamped).
\<close>

theorem interpretForm_test_vectors:
  "interpretForm 80 50 10 = (''Nice elbow bend - controlled 90 deg range.'', 100) \<and>
   interpretForm 60 50 10 =
     (''Don't dive too deep - aim for about 90 deg at the elbows.'', 80) \<and>
   interpretForm 80 100 10 =
     (''Stack wrists under shoulders to avoid flaring the elbows.'', 80) \<and>
   interpretForm 160 100 50 =
     (''Keep shoulders level; avoid twisting on the way up.'', 60) \<and>
   max (60::real) (min 100 (100 - 15 - 20 - 15)) = 60"
  by (simp add: interpretForm_def)

text \<open>
  C3. For every triple of real inputs the score returned by \<open>interpretForm\<close> is an integer
  between 60 and 100.
\<close>

theorem interpretForm_score_range:
  "\<exists>n::int. snd (interpretForm averageElbowAngle averageStack shoulderTilt) = of_int n
     \<and> 60 \<le> n \<and> n \<le> 100"
proof -
  let ?s = "snd (interpretForm averageElbowAngle averageStack shoulderTilt)"
  have "?s \<in> {100, 85, 80, 70, 65, 60}"
    by (simp add: interpretForm_def)
  then consider "?s = of_int 100" | "?s = of_int 85" | "?s = of_int 80"
    | "?s = of_int 70" | "?s = of_int 65" | "?s = of_int 60"
    by auto
  then show ?thesis
  proof cases
    case 1 then show ?thesis by (intro exI[of _ 100]) simp
  next
    case 2 then show ?thesis by (intro exI[of _ 85]) simp
  next
    case 3 then show ?thesis by (intro exI[of _ 80]) simp
  next
    case 4 then show ?thesis by (intro exI[of _ 70]) simp
  next
    case 5 then show ?thesis by (intro exI[of _ 65]) simp
  next
    case 6 then show ?thesis by (intro exI[of _ 60]) simp
  qed
qed

section \<open>Angle calculator: range, degenerate case, symmetry\<close>

lemma hypot_zero_iff: "hypot u v = 0 \<longleftrightarrow> u = 0 \<and> v = 0"
  by (simp add: hypot_def)

lemma clamped_arccos_degrees:
  "0 \<le> arccos (min (max t (- 1)) 1) * 180 / pi \<and> arccos (min (max t (- 1)) 1) * 180 / pi \<le> 180"
proof -
  let ?c = "min (max t (- 1)) 1"
  have c: "- 1 \<le> ?c" "?c \<le> 1" by auto
  have "0 \<le> arccos ?c" "arccos ?c \<le> pi"
    using arccos_lbound[OF c] arccos_ubound[OF c] by auto
  then show ?thesis
    using pi_gt_zero by (simp add: field_simps)
qed

text \<open>
  C5. For all points \<open>a\<close>, \<open>b\<close>, \<open>c\<close> the value of \<open>calculateAngle a b c\<close> lies between 0
  and 180 degrees, and it is exactly 180 when \<open>a\<close> or \<open>c\<close> has the coordinates of \<open>b\<close>.
\<close>

theorem calculateAngle_range:
  "0 \<le> calculateAngle a b c \<and> calculateAngle a b c \<le> 180 \<and>
   ((kp_x a = kp_x b \<and> kp_y a = kp_y b) \<or> (kp_x c = kp_x b \<and> kp_y c = kp_y b)
      \<longrightarrow> calculateAngle a b c = 180)"
proof -
  have degenerate: "calculateAngle a b c = 180"
    if "(kp_x a = kp_x b \<and> kp_y a = kp_y b) \<or> (kp_x c = kp_x b \<and> kp_y c = kp_y b)"
    using that by (auto simp: calculateAngle_def Let_def hypot_zero_iff)
  have "0 \<le> calculateAngle a b c \<and> calculateAngle a b c \<le> 180"
    using clamped_arccos_degrees by (simp add: calculateAngle_def Let_def)
  with degenerate show ?thesis by blast
qed

text \<open>
  C5, at concrete points: the wrist on the elbow gives 180 degrees, and with the wrist
  beside the elbow the angle lies within the range.
\<close>

theorem calculateAngle_range_witness:
  "kp_x (joint ''left_wrist'' 0 1) = kp_x (joint ''left_elbow'' 0 1) \<and>
   kp_y (joint ''left_wrist'' 0 1) = kp_y (joint ''left_elbow'' 0 1) \<and>
   calculateAngle (joint ''left_shoulder'' 0 0) (joint ''left_elbow'' 0 1)
     (joint ''left_wrist'' 0 1) = 180 \<and>
   0 \<le> calculateAngle (joint ''left_shoulder'' 0 0) (joint ''left_elbow'' 0 1)
     (joint ''left_wrist'' 1 1) \<and>
   calculateAngle (joint ''left_shoulder'' 0 0) (joint ''left_elbow'' 0 1)
     (joint ''left_wrist'' 1 1) \<le> 180"
  using calculateAngle_range[of "joint ''left_shoulder'' 0 0" "joint ''left_elbow'' 0 1"
      "joint ''left_wrist'' 0 1"]
    calculateAngle_range[of "joint ''left_shoulder'' 0 0" "joint ''left_elbow'' 0 1"
      "joint ''left_wrist'' 1 1"]
  by (simp add: joint_def)

text \<open>
  C6. \<open>calculateAngle\<close> is symmetric under swapping its outer arguments, for all points.
\<close>

theorem calculateAngle_symmetric:
  "calculateAngle a b c = calculateAngle c b a"
  by (simp add: calculateAngle_def Let_def mult.commute add.commute disj_commute)

section \<open>Properties of the rounding\<close>

lemma rne_of_int: "rne (of_int n) = n"
  by (simp add: rne_def)

lemma rne_bounds: "\<lfloor>r\<rfloor> \<le> rne r \<and> rne r \<le> \<lfloor>r\<rfloor> + 1"
  by (simp add: rne_def Let_def)

lemma rne_mono:
  assumes "r \<le> s" shows "rne r \<le> rne s"
proof (cases "\<lfloor>r\<rfloor> = \<lfloor>s\<rfloor>")
  case True
  with assms show ?thesis by (auto simp: rne_def Let_def)
next
  case False
  with floor_mono[OF assms] have "\<lfloor>r\<rfloor> + 1 \<le> \<lfloor>s\<rfloor>" by simp
  with rne_bounds[of r] rne_bounds[of s] show ?thesis by linarith
qed

lemma ulp_pos: "0 < ulp x"
  by (simp add: ulp_def)

lemma fl_0 [simp]: "fl 0 = 0"
  by (simp add: fl_def)

lemma fl_minus: "fl (- x) = - fl x"
  by (simp add: fl_def ulp_def expo_def sgn_minus)

lemma fl_pos_eq: "0 < x \<Longrightarrow> fl x = of_int (rne (x / ulp x)) * ulp x"
  by (simp add: fl_def)

lemma fl_nonneg:
  assumes "0 \<le> x" shows "0 \<le> fl x"
proof -
  from assms have "of_int 0 \<le> \<bar>x\<bar> / ulp x" using ulp_pos[of x] by simp
  from rne_mono[OF this] have "0 \<le> rne (\<bar>x\<bar> / ulp x)" by (simp only: rne_of_int)
  with assms ulp_pos[of x] show ?thesis
    by (simp add: fl_def sgn_if)
qed

lemma expo_upper:
  assumes "0 < x" shows "x < 2 powr of_int (expo x + 1)"
proof -
  let ?k = "\<lfloor>log 2 x\<rfloor>"
  from assms have "x < 2 powr (of_int ?k + 1)"
    using floor_log_eq_powr_iff[of x 2 ?k] by simp
  also have "\<dots> \<le> 2 powr of_int (expo x + 1)"
    using assms by (simp add: expo_def)
  finally show ?thesis .
qed

lemma expo_lower:
  assumes "0 < x" "- 1022 < expo x" shows "2 powr of_int (expo x) \<le> x"
proof -
  let ?k = "\<lfloor>log 2 x\<rfloor>"
  from assms have "expo x = ?k" by (simp add: expo_def max_def split: if_splits)
  moreover from assms(1) have "2 powr of_int ?k \<le> x"
    using floor_log_eq_powr_iff[of x 2 ?k] by simp
  ultimately show ?thesis by simp
qed

lemma expo_mono:
  assumes "0 < x" "x \<le> y" shows "expo x \<le> expo y"
proof -
  from assms have "log 2 x \<le> log 2 y" by simp
  then have "\<lfloor>log 2 x\<rfloor> \<le> \<lfloor>log 2 y\<rfloor>" by (rule floor_mono)
  with assms show ?thesis by (simp add: expo_def)
qed

text \<open>A positive number rounds to a double of its own binade, or to the next power of two.\<close>

lemma fl_le_binade:
  assumes "0 < x" shows "fl x \<le> 2 powr of_int (expo x + 1)"
proof -
  have "ulp x * 2 powr 53 = 2 powr (of_int (expo x - 52) + 53)"
    by (simp only: ulp_def powr_add)
  then have u: "ulp x * 2 ^ 53 = 2 powr of_int (expo x + 1)"
    by (simp add: algebra_simps)
  from expo_upper[OF assms] u have "x < ulp x * 2 ^ 53" by simp
  then have "x / ulp x \<le> of_int (2 ^ 53)"
    using ulp_pos[of x] by (simp add: field_simps)
  from rne_mono[OF this] have "rne (x / ulp x) \<le> 2 ^ 53" by (simp only: rne_of_int)
  then have "real_of_int (rne (x / ulp x)) \<le> 2 ^ 53"
    by (metis of_int_le_iff of_int_numeral of_int_power)
  then have "of_int (rne (x / ulp x)) * ulp x \<le> 2 ^ 53 * ulp x"
    using ulp_pos[of x] by simp
  with u assms show ?thesis by (simp add: fl_pos_eq mult.commute)
qed

lemma fl_ge_binade:
  assumes "0 < x" "- 1022 < expo x" shows "2 powr of_int (expo x) \<le> fl x"
proof -
  have "ulp x * 2 powr 52 = 2 powr (of_int (expo x - 52) + 52)"
    by (simp only: ulp_def powr_add)
  then have u: "ulp x * 2 ^ 52 = 2 powr of_int (expo x)"
    by (simp add: algebra_simps)
  from expo_lower[OF assms] u have "ulp x * 2 ^ 52 \<le> x" by simp
  then have "of_int (2 ^ 52) \<le> x / ulp x"
    using ulp_pos[of x] by (simp add: field_simps)
  from rne_mono[OF this] have "2 ^ 52 \<le> rne (x / ulp x)" by (simp only: rne_of_int)
  then have "2 ^ 52 \<le> real_of_int (rne (x / ulp x))"
    by (metis of_int_le_iff of_int_numeral of_int_power)
  then have "2 ^ 52 * ulp x \<le> of_int (rne (x / ulp x)) * ulp x"
    using ulp_pos[of x] by simp
  with u assms show ?thesis by (simp add: fl_pos_eq mult.commute)
qed

lemma fl_mono_pos:
  assumes "0 < x" "x \<le> y" shows "fl x \<le> fl y"
proof (cases "expo x = expo y")
  case True
  then have u: "ulp x = ulp y" by (simp add: ulp_def)
  from assms ulp_pos[of y] have "x / ulp y \<le> y / ulp y"
    by (simp add: divide_right_mono)
  from rne_mono[OF this] ulp_pos[of y] assms show ?thesis
    by (simp add: fl_pos_eq u)
next
  case False
  from assms have y: "0 < y" by simp
  from False expo_mono[OF assms] have lt: "expo x + 1 \<le> expo y" by simp
  have "- 1022 \<le> expo x" by (simp add: expo_def)
  with lt have "- 1022 < expo y" by simp
  from fl_ge_binade[OF y this] have "2 powr of_int (expo y) \<le> fl y" .
  moreover from lt have "2 powr real_of_int (expo x + 1) \<le> 2 powr of_int (expo y)"
    by simp
  moreover note fl_le_binade[OF assms(1)]
  ultimately show ?thesis by linarith
qed

text \<open>Rounding is monotone.\<close>

lemma fl_mono:
  assumes "x \<le> y" shows "fl x \<le> fl y"
proof -
  consider "0 < x" | "x \<le> 0" "0 \<le> y" | "y < 0" by linarith
  then show ?thesis
  proof cases
    case 1
    from 1 assms show ?thesis by (rule fl_mono_pos)
  next
    case 2
    from 2(1) have "0 \<le> fl (- x)" by (intro fl_nonneg) simp
    then have "fl x \<le> 0" by (simp add: fl_minus)
    with fl_nonneg[OF 2(2)] show ?thesis by simp
  next
    case 3
    with assms have "0 < - y" "- y \<le> - x" by simp_all
    from fl_mono_pos[OF this] show ?thesis by (simp add: fl_minus)
  qed
qed

text \<open>The integers below \<open>2 ^ 53\<close> in magnitude are doubles: rounding leaves them alone.\<close>

lemma fl_of_int_pos:
  assumes "0 < n" "n < 2 ^ 53" shows "fl (of_int n) = of_int n"
proof -
  let ?x = "real_of_int n"
  let ?k = "\<lfloor>log 2 ?x\<rfloor>"
  have x: "0 < ?x" "1 \<le> ?x" using assms by simp_all
  have "?x < 2 ^ 53" using assms(2) by (metis of_int_less_iff of_int_numeral of_int_power)
  then have "?x < 2 powr 53" by simp
  moreover have "(1::real) < 2" by simp
  ultimately have "log 2 ?x < 53" using less_powr_iff[of 2 ?x 53] x(1) by blast
  then have "?k < 53" by (simp add: floor_less_iff)
  then have k52: "?k \<le> 52" by simp
  have k0: "0 \<le> ?k" using x by simp
  then have "- 1022 \<le> ?k" by linarith
  then have e: "expo ?x = ?k" unfolding expo_def abs_of_pos[OF x(1)] by (rule max_absorb1)
  define j where "j = nat (52 - ?k)"
  have j: "real_of_int (expo ?x - 52) = - real j" using k52 by (simp add: e j_def)
  have u: "ulp ?x = 1 / 2 ^ j"
    by (simp only: ulp_def j powr_minus) (simp add: powr_realpow field_simps)
  have "?x / ulp ?x = of_int (n * 2 ^ j)" by (simp add: u)
  then have "rne (?x / ulp ?x) = n * 2 ^ j" by (simp only: rne_of_int)
  with x show ?thesis by (simp add: fl_pos_eq u)
qed

lemma fl_of_int:
  assumes "\<bar>n\<bar> < 2 ^ 53" shows "fl (of_int n) = of_int n"
proof -
  consider "0 < n" | "n = 0" | "n < 0" by linarith
  then show ?thesis
  proof cases
    case 1
    with assms show ?thesis by (simp add: fl_of_int_pos)
  next
    case 2
    then show ?thesis by simp
  next
    case 3
    with assms have "0 < - n" "- n < 2 ^ 53" by simp_all
    from fl_of_int_pos[OF this] show ?thesis by (simp add: fl_minus)
  qed
qed

lemma fl_numeral [simp]: "(numeral k :: int) < 2 ^ 53 \<Longrightarrow> fl (numeral k) = numeral k"
  using fl_of_int[of "numeral k"] by simp

lemma fl_neg_numeral [simp]:
  "(numeral k :: int) < 2 ^ 53 \<Longrightarrow> fl (- numeral k) = - numeral k"
  using fl_of_int[of "- numeral k"] by simp

lemma fl_1 [simp]: "fl 1 = 1"
  using fl_of_int[of 1] by simp

lemma fl_neg_1 [simp]: "fl (- 1) = - 1"
  using fl_of_int[of "- 1"] by simp

lemma fsub_self [simp]: "fsub x x = 0"
  by (simp add: fsub_def)

text \<open>
  A rounded difference is above a threshold that is a double only if the exact difference
  is: for the thresholds 52 and 70.
\<close>

lemma fsub_gt_52: "fsub x y > 52 \<Longrightarrow> x - y > 52"
proof (rule ccontr)
  assume a: "fsub x y > 52" and "\<not> x - y > 52"
  then have "x - y \<le> 52" by simp
  from fl_mono[OF this] a show False by (simp add: fsub_def)
qed

lemma fsub_le_70: "x - y \<le> 70 \<Longrightarrow> fsub x y \<le> 70"
  using fl_mono[of "x - y" 70] by (simp add: fsub_def)

subsection \<open>The rounding at work\<close>

text \<open>Evaluation of \<open>fl\<close> inside a binade.\<close>

lemma fl_binade:
  assumes "2 powr of_int k \<le> x" "x < 2 powr (of_int k + 1)" "- 1022 \<le> k"
  shows "fl x = of_int (rne (x / 2 powr of_int (k - 52))) * 2 powr of_int (k - 52)"
proof -
  have "(0::real) < 2 powr of_int k" by simp
  with assms(1) have x: "0 < x" by linarith
  with assms(1,2) have "\<lfloor>log 2 x\<rfloor> = k"
    using floor_log_eq_powr_iff[of x 2 k] by simp
  with assms(3) x have "expo x = k" by (simp add: expo_def)
  with x show ?thesis by (simp add: fl_pos_eq ulp_def)
qed

lemma pow2_neg: "2 powr real_of_int (- int n) = 1 / 2 ^ n"
  using powr_minus[of "2::real" "real n"] by (simp add: powr_realpow field_simps)

lemma double_above_90: "fl (90 + 1 / 2 ^ 46) = 90 + 1 / 2 ^ 46"
proof -
  let ?x = "90 + 1 / 2 ^ 46 :: real"
  have p: "2 powr real_of_int (6 - 52) = 1 / 2 ^ 46"
    using pow2_neg[of 46] by simp
  have "fl ?x = of_int (rne (?x / 2 powr of_int (6 - 52))) * 2 powr of_int (6 - 52)"
    by (rule fl_binade) simp_all
  also have "?x / 2 powr of_int (6 - 52) = of_int 6333186975989761"
    by (simp only: p) simp
  finally show ?thesis by (simp only: p rne_of_int) simp
qed

lemma tie_to_even: "fl (90 + 1 / 2 ^ 46 + 90) = 180"
proof -
  let ?x = "90 + 1 / 2 ^ 46 + 90 :: real"
  have p: "2 powr real_of_int (7 - 52) = 1 / 2 ^ 45"
    using pow2_neg[of 45] by simp
  have "fl ?x = of_int (rne (?x / 2 powr of_int (7 - 52))) * 2 powr of_int (7 - 52)"
    by (rule fl_binade) simp_all
  also have "?x / 2 powr of_int (7 - 52) = 6333186975989760 + 1 / 2"
    by (simp only: p) simp
  also have "rne (6333186975989760 + 1 / 2) = 6333186975989760"
    by (simp add: rne_def)
  finally show ?thesis by (simp only: p) simp
qed

text \<open>
  The doubles nearest to 70.7 and 0.7 differ by a little more than 70, and their rounded
  difference is exactly 70: as a range it does not pass the gate \<open>> 70\<close>.
\<close>

lemma rounded_gate_example:
  "fsub (4975070213360845 / 2 ^ 46) (3152519739159347 / 2 ^ 52) = 70 \<and>
   (4975070213360845 / 2 ^ 46 - 3152519739159347 / 2 ^ 52 :: real) > 70"
proof -
  let ?x = "4975070213360845 / 2 ^ 46 - 3152519739159347 / 2 ^ 52 :: real"
  have p: "2 powr real_of_int (6 - 52) = 1 / 2 ^ 46"
    using pow2_neg[of 46] by simp
  have "fl ?x = of_int (rne (?x / 2 powr of_int (6 - 52))) * 2 powr of_int (6 - 52)"
    by (rule fl_binade) simp_all
  also have "?x / 2 powr of_int (6 - 52) = 4925812092436480 + 13 / 64"
    by (simp only: p) simp
  also have "rne (4925812092436480 + 13 / 64) = 4925812092436480"
    by (simp add: rne_def)
  finally have "fl ?x = 70" by (simp only: p) simp
  then show ?thesis by (simp add: fsub_def)
qed

section \<open>The rep-phase machine inside the frame pipeline\<close>

lemmas thresholds = downThreshold_def upThreshold_def minimumRange_def

lemma flushCheck_repStateRef: "repStateRef (flushCheck now s) = repStateRef s"
  by (simp add: flushCheck_def Let_def)

lemma processPose_repStateRef:
  "repStateRef (processPose p now s) =
     (case shoulderY p of None \<Rightarrow> repStateRef s | Some y \<Rightarrow> fst (repPhase y (repStateRef s)))"
  by (simp add: processPose_def shoulderY_def flushCheck_repStateRef Let_def
      split: option.splits prod.splits)

lemma processFrames_repStateRef:
  "repStateRef (processFrames fs s) = feed (observed fs) (repStateRef s)"
proof (induction fs arbitrary: s)
  case Nil
  then show ?case by (simp add: observed_def)
next
  case (Cons f fs)
  obtain p now where f: "f = (p, now)" by (cases f)
  show ?case
    by (cases "shoulderY p")
      (simp_all add: f Cons.IH observed_def processPose_repStateRef)
qed

lemma processFrames_append: "processFrames (fs @ gs) s = processFrames gs (processFrames fs s)"
  by (induction fs arbitrary: s) auto

lemma feed_append: "feed (xs @ ys) st = feed ys (feed xs st)"
  by (induction xs arbitrary: st) simp_all

lemma observed_Nil: "observed [] = []"
  by (simp add: observed_def)

lemma observed_Cons:
  "observed ((p, now) # fs) = (case shoulderY p of None \<Rightarrow> observed fs | Some y \<Rightarrow> y # observed fs)"
  by (simp add: observed_def split: option.splits)

lemma observed_append: "observed (fs @ gs) = observed fs @ observed gs"
  by (simp add: observed_def List.map_filter_def)

lemma set_observed_take: "set (observed (take n fs)) \<subseteq> set (observed fs)"
proof -
  have "observed fs = observed (take n fs) @ observed (drop n fs)"
    by (metis append_take_drop_id observed_append)
  then show ?thesis by simp
qed

lemma getPoint_joint [simp]:
  "getPoint \<lparr>keypoints = joint m u v # ks\<rparr> n =
     (if m = n then Some (joint m u v) else getPoint \<lparr>keypoints = ks\<rparr> n)"
  by (simp add: getPoint_def joint_def)

lemma getPoint_empty [simp]: "getPoint \<lparr>keypoints = []\<rparr> n = None"
  by (simp add: getPoint_def)

lemma shoulderY_shoulderPose: "shoulderY (shoulderPose v) = Some (fdiv (fadd v v) 2)"
  by (simp add: shoulderY_def shoulderPose_def) (simp add: joint_def)

lemmas run_simps = observed_Cons observed_Nil shoulderY_shoulderPose fdiv_def fadd_def fsub_def
  processPose_repStateRef session0_def repState0_def repPhase_def thresholds

section \<open>A single rep\<close>

text \<open>In the bottom phase a rising sequence only moves \<open>bottomY\<close> up.\<close>

lemma bottom_rise:
  "phase st = Bottom \<Longrightarrow> topY st = Some t \<Longrightarrow> bottomY st = Some b \<Longrightarrow> sorted (b # ys) \<Longrightarrow>
   phase (feed ys st) = Bottom \<and> topY (feed ys st) = Some t \<and>
   bottomY (feed ys st) = Some (last (b # ys)) \<and> repCount (feed ys st) = repCount st"
proof (induction ys arbitrary: st b)
  case Nil
  then show ?case by simp
next
  case (Cons y ys)
  let ?st = "fst (repPhase y st)"
  from Cons.prems have "b \<le> y" by simp
  with Cons.prems have st: "phase ?st = Bottom" "topY ?st = Some t" "bottomY ?st = Some y"
    "repCount ?st = repCount st"
    by (simp_all add: repPhase_def thresholds max_def)
  from Cons.prems have "sorted (y # ys)" by simp
  from Cons.IH[OF st(1-3) this] st(4) show ?case by simp
qed

text \<open>
  A rise from the top whose last value is, by the rounded difference, more than 52 above
  \<open>topY\<close> ends in the bottom phase, at the peak.
\<close>

lemma top_rise:
  "phase st = Top \<Longrightarrow> topY st = None \<and> hd ys = y0 \<or> topY st = Some y0 \<Longrightarrow>
   sorted (y0 # ys) \<Longrightarrow> ys \<noteq> [] \<Longrightarrow> fsub (last ys) y0 > 52 \<Longrightarrow>
   phase (feed ys st) = Bottom \<and> topY (feed ys st) = Some y0 \<and>
   bottomY (feed ys st) = Some (last ys) \<and> repCount (feed ys st) = repCount st"
proof (induction ys arbitrary: st)
  case Nil
  then show ?case by simp
next
  case (Cons y ys)
  let ?st = "fst (repPhase y st)"
  from Cons.prems have y: "y0 \<le> y" and srt: "sorted (y # ys)" by simp_all
  show ?case
  proof (cases "fsub y y0 > 52")
    case True
    with Cons.prems y have st: "phase ?st = Bottom" "topY ?st = Some y0" "bottomY ?st = Some y"
      "repCount ?st = repCount st"
      by (auto simp: repPhase_def thresholds min_def)
    from bottom_rise[OF st(1-3) srt] st(4) show ?thesis by simp
  next
    case False
    with Cons.prems y have st: "phase ?st = Top" "topY ?st = Some y0"
      "repCount ?st = repCount st"
      by (auto simp: repPhase_def thresholds min_def)
    from False Cons.prems have ne: "ys \<noteq> []" by auto
    with Cons.prems have "fsub (last ys) y0 > 52" by simp
    moreover from Cons.prems have "sorted (y0 # ys)" by simp
    ultimately show ?thesis
      using Cons.IH[of ?st] st ne by simp
  qed
qed

text \<open>In the top phase a falling sequence only moves \<open>topY\<close> down.\<close>

lemma top_fall:
  "phase st = Top \<Longrightarrow> topY st = Some t \<Longrightarrow> sorted_wrt (\<ge>) (t # ys) \<Longrightarrow>
   phase (feed ys st) = Top \<and> topY (feed ys st) = Some (last (t # ys)) \<and>
   repCount (feed ys st) = repCount st"
proof (induction ys arbitrary: st t)
  case Nil
  then show ?case by simp
next
  case (Cons y ys)
  let ?st = "fst (repPhase y st)"
  from Cons.prems have y: "y \<le> t" and srt: "sorted_wrt (\<ge>) (y # ys)" by simp_all
  with Cons.prems have st: "phase ?st = Top" "topY ?st = Some y" "repCount ?st = repCount st"
    by (auto simp: repPhase_def thresholds min_def)
  from Cons.IH[OF st(1,2) srt] st(3) show ?case by simp
qed

text \<open>
  From the bottom phase with a recorded range above 70, a fall to more than 40 below
  \<open>bottomY\<close> counts one rep (both by the rounded differences).
\<close>

lemma bottom_fall:
  "phase st = Bottom \<Longrightarrow> topY st = Some t \<Longrightarrow> bottomY st = Some b \<Longrightarrow> fsub b t > 70 \<Longrightarrow>
   sorted_wrt (\<ge>) (b # ys) \<Longrightarrow> ys \<noteq> [] \<Longrightarrow> fsub b (last ys) > 40 \<Longrightarrow>
   phase (feed ys st) = Top \<and> topY (feed ys st) = Some (last ys) \<and>
   repCount (feed ys st) = repCount st + 1"
proof (induction ys arbitrary: st)
  case Nil
  then show ?case by simp
next
  case (Cons y ys)
  let ?st = "fst (repPhase y st)"
  from Cons.prems have y: "y \<le> b" and srt: "sorted_wrt (\<ge>) (y # ys)" by simp_all
  show ?case
  proof (cases "fsub b y > 40")
    case True
    with Cons.prems y have st: "phase ?st = Top" "topY ?st = Some y"
      "repCount ?st = repCount st + 1"
      by (auto simp: repPhase_def thresholds max_def)
    from top_fall[OF st(1,2) srt] st(3) show ?thesis by simp
  next
    case False
    with Cons.prems y have st: "phase ?st = Bottom" "topY ?st = Some t" "bottomY ?st = Some b"
      "repCount ?st = repCount st"
      by (auto simp: repPhase_def thresholds max_def)
    from False Cons.prems have ne: "ys \<noteq> []" by auto
    with Cons.prems have "fsub b (last ys) > 40" by simp
    moreover from Cons.prems have "sorted_wrt (\<ge>) (b # ys)" by simp
    ultimately show ?thesis
      using Cons.IH[OF st(1-3) Cons.prems(4)] st(4) ne by simp
  qed
qed

lemma single_rep_feed:
  assumes "phase st = Top" "topY st = None \<or> topY st = Some (hd up)"
    and "up \<noteq> []" "sorted up" "fsub (last up) (hd up) > 52"
    and "sorted_wrt (\<ge>) (last up # down)" "down \<noteq> []" "fsub (last up) (last down) > 40"
    and "fsub (last up) (hd up) > 70"
  shows "phase (feed (up @ down) st) = Top \<and> repCount (feed (up @ down) st) = repCount st + 1"
proof -
  from assms(3,4) have "sorted (hd up # up)"
    by (cases up) simp_all
  from top_rise[OF assms(1) _ this assms(3,5)] assms(2)
  have up: "phase (feed up st) = Bottom" "topY (feed up st) = Some (hd up)"
    "bottomY (feed up st) = Some (last up)" "repCount (feed up st) = repCount st"
    by auto
  from bottom_fall[OF up(1-3) assms(9,6,7,8)] up(4) show ?thesis
    by (simp add: feed_append)
qed

text \<open>
  C1, as amended. Start in phase top with \<open>topY\<close> unset or equal to the first observed
  shoulder-y. Let the observed shoulder-y sequence rise monotonically (\<open>up\<close>) and then fall
  monotonically (\<open>down\<close>), where the peak is more than 52 and more than 70 above the first
  value and the last value is more than 40 below the peak, each difference being the one
  the code computes (the rounded subtraction \<open>fsub\<close>). The difference of peak and first
  value is the excursion \<open>bottomY - topY\<close> that the machine tests. Then \<open>repCount\<close> is
  incremented exactly once and the machine ends in phase top.
\<close>

theorem single_rep_scenario:
  assumes "phase (repStateRef s) = Top"
    and "topY (repStateRef s) = None \<or> topY (repStateRef s) = Some (hd up)"
    and "observed fs = up @ down"
    and "up \<noteq> []" and "sorted up" and "fsub (last up) (hd up) > 52"
    and "sorted_wrt (\<ge>) (last up # down)" and "down \<noteq> []"
    and "fsub (last up) (last down) > 40"
    and "fsub (last up) (hd up) > 70"
  shows "repCount (repStateRef (processFrames fs s)) = repCount (repStateRef s) + 1 \<and>
         phase (repStateRef (processFrames fs s)) = Top"
  using single_rep_feed[OF assms(1,2,4-10)] assms(3)
  by (simp add: processFrames_repStateRef)

text \<open>
  C1, at a concrete run from the initial session: shoulder heights 0, 100, 50 count one rep
  and end in phase top.
\<close>

theorem single_rep_scenario_witness:
  "phase (repStateRef (session0 0)) = Top \<and> topY (repStateRef (session0 0)) = None \<and>
   observed [(shoulderPose 0, 0), (shoulderPose 100, 16), (shoulderPose 50, 33)]
     = [0, 100] @ [50] \<and>
   sorted [0, 100 :: real] \<and> fsub (last [0, 100]) (hd [0, 100]) > 70 \<and>
   sorted_wrt (\<ge>) (last [0, 100 :: real] # [50]) \<and> fsub (last [0, 100]) (last [50]) > 40 \<and>
   repCount (repStateRef (processFrames
      [(shoulderPose 0, 0), (shoulderPose 100, 16), (shoulderPose 50, 33)] (session0 0))) = 1 \<and>
   phase (repStateRef (processFrames
      [(shoulderPose 0, 0), (shoulderPose 100, 16), (shoulderPose 50, 33)] (session0 0))) = Top"
proof -
  have init: "phase (repStateRef (session0 0)) = Top" "topY (repStateRef (session0 0)) = None"
    "repCount (repStateRef (session0 0)) = 0"
    by (simp_all add: session0_def repState0_def)
  have obs: "observed [(shoulderPose 0, 0), (shoulderPose 100, 16), (shoulderPose 50, 33)]
      = [0, 100] @ [50]"
    by (simp add: observed_Cons observed_Nil shoulderY_shoulderPose fdiv_def fadd_def)
  have diffs: "fsub (last [0, 100]) (hd [0, 100]) > 52" "fsub (last [0, 100]) (hd [0, 100]) > 70"
    "fsub (last [0, 100]) (last [50]) > 40"
    by (simp_all add: fsub_def)
  from single_rep_scenario[of "session0 0" "[0, 100]" _ "[50]", OF init(1) _ obs _ _ diffs(1) _ _
      diffs(3) diffs(2)] init
  show ?thesis
    using obs diffs by simp
qed

text \<open>
  C1 as stated fails: the shoulder heights 0, 60, -20 rise by 60 (more than 52), then fall
  by 80 (more than 40), and their maximum minus their minimum is 80 (more than 70); yet no
  rep is counted and the machine stays in phase bottom, because \<open>bottomY - topY\<close> is 60.
\<close>

theorem single_rep_max_min_counterexample:
  "observed [(shoulderPose 0, 0), (shoulderPose 60, 16), (shoulderPose (- 20), 33)]
     = [0, 60] @ [- 20] \<and>
   sorted [0, 60 :: real] \<and> last [0, 60 :: real] - hd [0, 60] > 52 \<and>
   sorted_wrt (\<ge>) (last [0, 60 :: real] # [- 20]) \<and> last [0, 60 :: real] - last [- 20] > 40 \<and>
   excursion ([0, 60] @ [- 20]) > 70 \<and>
   repCount (repStateRef (processFrames
      [(shoulderPose 0, 0), (shoulderPose 60, 16), (shoulderPose (- 20), 33)] (session0 0))) = 0 \<and>
   phase (repStateRef (processFrames
      [(shoulderPose 0, 0), (shoulderPose 60, 16), (shoulderPose (- 20), 33)] (session0 0)))
     = Bottom"
  by (simp add: excursion_def run_simps)

section \<open>Shallow oscillations\<close>

lemma repPhase_inBand:
  assumes "inBand lo hi st" "lo \<le> y" "y \<le> hi" "hi - lo \<le> 70"
  shows "inBand lo hi (fst (repPhase y st)) \<and> repCount (fst (repPhase y st)) = repCount st
         \<and> snd (repPhase y st) = None"
proof (cases "phase st")
  case Top
  with assms show ?thesis
    by (cases "topY st") (auto simp: inBand_def repPhase_def Let_def min_def)
next
  case Bottom
  show ?thesis
  proof (cases "topY st")
    case None
    with Bottom assms show ?thesis
      by (auto simp: inBand_def repPhase_def Let_def thresholds)
  next
    case (Some t)
    show ?thesis
    proof (cases "bottomY st")
      case None
      with Bottom Some assms show ?thesis
        by (auto simp: inBand_def repPhase_def Let_def)
    next
      case b: (Some b)
      from Bottom Some b assms(1) have "lo \<le> t" "b \<le> hi" by (simp_all add: inBand_def)
      with assms have "max b y - t \<le> 70" by (simp add: max_def)
      from fsub_le_70[OF this] have "\<not> fsub (max b y) t > 70" by simp
      with Bottom Some b assms \<open>b \<le> hi\<close> \<open>lo \<le> t\<close> show ?thesis
        by (simp add: inBand_def repPhase_def Let_def thresholds)
    qed
  qed
qed

lemma feed_inBand:
  "inBand lo hi st \<Longrightarrow> \<forall>y\<in>set ys. lo \<le> y \<and> y \<le> hi \<Longrightarrow> hi - lo \<le> 70 \<Longrightarrow>
   inBand lo hi (feed ys st) \<and> repCount (feed ys st) = repCount st"
proof (induction ys arbitrary: st)
  case Nil
  then show ?case by simp
next
  case (Cons y ys)
  from Cons.prems have "lo \<le> y" "y \<le> hi" by simp_all
  from repPhase_inBand[OF Cons.prems(1) this Cons.prems(3)]
  have st: "inBand lo hi (fst (repPhase y st))" "repCount (fst (repPhase y st)) = repCount st"
    by simp_all
  from Cons.IH[OF st(1) _ Cons.prems(3)] Cons.prems(2) st(2) show ?case by simp
qed

lemma excursion_bounds:
  assumes "y \<in> set ys"
  shows "Min (set ys) \<le> y \<and> y \<le> Max (set ys) \<and> excursion ys = Max (set ys) - Min (set ys)"
  using assms by (auto simp: excursion_def)

lemma inBand_extremes:
  "\<forall>y\<in>set (extremes st). lo \<le> y \<and> y \<le> hi \<Longrightarrow> inBand lo hi st"
  by (auto simp: inBand_def extremes_def split: option.splits phase.splits)

text \<open>
  C4, as amended. From every state of the session, reachable ones included: when the
  observed shoulder-y values of the frames \<open>fs\<close>, together with the stored \<open>topY\<close> and, in
  phase bottom, the stored \<open>bottomY\<close>, have a total excursion (maximum minus minimum) of at
  most 70, no step on \<open>fs\<close> increments \<open>repCount\<close>: after every prefix of \<open>fs\<close> the count
  is what it was. From the initial state nothing is stored, and the condition is on the
  sequence alone.
\<close>

theorem shallow_oscillation_never_counts:
  assumes "excursion (extremes (repStateRef s) @ observed fs) \<le> 70"
  shows "repCount (repStateRef (processFrames (take n fs) s)) = repCount (repStateRef s)"
proof -
  let ?all = "extremes (repStateRef s) @ observed fs"
  let ?lo = "Min (set ?all)" and ?hi = "Max (set ?all)"
  let ?ys = "observed (take n fs)"
  have sub: "set ?ys \<subseteq> set ?all"
    using set_observed_take[of n fs] by auto
  show ?thesis
  proof (cases "?ys = []")
    case True
    then show ?thesis by (simp add: processFrames_repStateRef)
  next
    case False
    then obtain y where "y \<in> set ?all" using sub by (cases ?ys) auto
    from excursion_bounds[OF this] assms have width: "?hi - ?lo \<le> 70" by simp
    have band: "\<forall>y\<in>set ?ys. ?lo \<le> y \<and> y \<le> ?hi"
      using sub by auto
    have "\<forall>y\<in>set (extremes (repStateRef s)). ?lo \<le> y \<and> y \<le> ?hi"
      by auto
    then have "inBand ?lo ?hi (repStateRef s)" by (rule inBand_extremes)
    from feed_inBand[OF this band width] show ?thesis
      by (simp add: processFrames_repStateRef)
  qed
qed

lemma after_one_rep:
  "repStateRef (processFrames [(shoulderPose 0, 0), (shoulderPose 100, 16), (shoulderPose 50, 33)]
      (session0 0)) = \<lparr>phase = Top, topY = Some 50, bottomY = Some 100, repCount = 1\<rparr>"
  by (simp add: run_simps)

text \<open>
  C4, at a concrete run: after the heights 0, 100, 50 one rep is counted and \<open>topY\<close> is 50;
  the jitter 60, 95, 52 spans 45 together with it and counts nothing.
\<close>

theorem shallow_oscillation_never_counts_witness:
  "excursion (extremes (repStateRef (processFrames
        [(shoulderPose 0, 0), (shoulderPose 100, 16), (shoulderPose 50, 33)] (session0 0)))
      @ observed [(shoulderPose 60, 50), (shoulderPose 95, 66), (shoulderPose 52, 83)]) \<le> 70 \<and>
   repCount (repStateRef (processFrames
       (take 3 [(shoulderPose 60, 50), (shoulderPose 95, 66), (shoulderPose 52, 83)])
       (processFrames [(shoulderPose 0, 0), (shoulderPose 100, 16), (shoulderPose 50, 33)]
          (session0 0))))
     = repCount (repStateRef (processFrames
         [(shoulderPose 0, 0), (shoulderPose 100, 16), (shoulderPose 50, 33)] (session0 0))) \<and>
   repCount (repStateRef (processFrames
         [(shoulderPose 0, 0), (shoulderPose 100, 16), (shoulderPose 50, 33)] (session0 0))) = 1"
proof -
  let ?s = "processFrames [(shoulderPose 0, 0), (shoulderPose 100, 16), (shoulderPose 50, 33)]
      (session0 0)"
  let ?fs = "[(shoulderPose 60, 50), (shoulderPose 95, 66), (shoulderPose 52, 83)]"
  have h: "excursion (extremes (repStateRef ?s) @ observed ?fs) \<le> 70"
    unfolding after_one_rep
    by (simp add: extremes_def excursion_def observed_Cons observed_Nil shoulderY_shoulderPose
        fdiv_def fadd_def)
  have one: "repCount (repStateRef ?s) = 1"
    unfolding after_one_rep by simp
  from h shallow_oscillation_never_counts[OF h, of 3] one show ?thesis
    by (intro conjI)
qed

text \<open>
  C4 as stated fails from a reachable state: after the shoulder heights 0, 100, 50 (one rep
  counted, phase top, \<open>topY\<close> 50), the sequence 110, 125, 70 has a total excursion of 55,
  and yet it counts a second rep, since \<open>bottomY - topY\<close> is 125 - 50.
\<close>

theorem shallow_oscillation_counterexample:
  "excursion (observed [(shoulderPose 110, 50), (shoulderPose 125, 66), (shoulderPose 70, 83)])
     \<le> 70 \<and>
   repCount (repStateRef (processFrames
       [(shoulderPose 0, 0), (shoulderPose 100, 16), (shoulderPose 50, 33)] (session0 0))) = 1 \<and>
   repCount (repStateRef (processFrames
       [(shoulderPose 110, 50), (shoulderPose 125, 66), (shoulderPose 70, 83)]
       (processFrames
          [(shoulderPose 0, 0), (shoulderPose 100, 16), (shoulderPose 50, 33)] (session0 0))))
     = 2"
  by (simp add: excursion_def run_simps)

section \<open>Hysteresis invariant\<close>

lemma hysteresis_feed:
  "(phase st = Bottom \<longrightarrow> (\<exists>t b. topY st = Some t \<and> bottomY st = Some b \<and> b - t > 52)) \<Longrightarrow>
   phase (feed ys st) = Bottom \<Longrightarrow>
   \<exists>t b. topY (feed ys st) = Some t \<and> bottomY (feed ys st) = Some b \<and> b - t > 52"
proof (induction ys arbitrary: st)
  case Nil
  then show ?case by simp
next
  case (Cons y ys)
  let ?st = "fst (repPhase y st)"
  have "phase ?st = Bottom \<longrightarrow> (\<exists>t b. topY ?st = Some t \<and> bottomY ?st = Some b \<and> b - t > 52)"
    using Cons.prems(1)
    by (cases "phase st"; cases "topY st")
       (auto simp: repPhase_def thresholds Let_def max_def split: if_splits
          dest: fsub_gt_52)
  from Cons.IH[OF this] Cons.prems(2) show ?case by simp
qed

lemma bottom_step_monotone:
  assumes "phase st = Bottom" "phase (fst (repPhase y st)) = Bottom"
    "topY st = Some t" "bottomY st = Some b"
  shows "topY (fst (repPhase y st)) = Some t \<and>
         (\<exists>b'. bottomY (fst (repPhase y st)) = Some b' \<and> b \<le> b')"
  using assms by (auto simp: repPhase_def Let_def max_def split: if_splits)

text \<open>
  C10. In every state reached from the initial session by \<open>processPose\<close> steps, phase bottom
  implies that \<open>topY\<close> and \<open>bottomY\<close> are set and \<open>bottomY - topY > 52\<close>. Moreover a further
  step that stays in phase bottom leaves \<open>topY\<close> as it is and does not lower \<open>bottomY\<close>.
\<close>

theorem hysteresis_invariant:
  assumes "phase (repStateRef (processFrames fs (session0 t0))) = Bottom"
  shows "\<exists>t b. topY (repStateRef (processFrames fs (session0 t0))) = Some t \<and>
               bottomY (repStateRef (processFrames fs (session0 t0))) = Some b \<and>
               b - t > 52 \<and>
               (\<forall>p now. phase (repStateRef (processPose p now (processFrames fs (session0 t0))))
                          = Bottom \<longrightarrow>
                  topY (repStateRef (processPose p now (processFrames fs (session0 t0)))) = Some t \<and>
                  (\<exists>b'. bottomY (repStateRef (processPose p now (processFrames fs (session0 t0))))
                          = Some b' \<and> b \<le> b'))"
proof -
  let ?s = "processFrames fs (session0 t0)"
  have "phase (repStateRef (session0 t0)) = Bottom \<longrightarrow>
      (\<exists>t b. topY (repStateRef (session0 t0)) = Some t \<and>
             bottomY (repStateRef (session0 t0)) = Some b \<and> b - t > 52)"
    by (simp add: session0_def repState0_def)
  from hysteresis_feed[OF this, of "observed fs"] assms
  obtain t b where tb: "topY (repStateRef ?s) = Some t" "bottomY (repStateRef ?s) = Some b"
    "b - t > 52"
    by (auto simp: processFrames_repStateRef)
  have "topY (repStateRef (processPose p now ?s)) = Some t \<and>
        (\<exists>b'. bottomY (repStateRef (processPose p now ?s)) = Some b' \<and> b \<le> b')"
    if "phase (repStateRef (processPose p now ?s)) = Bottom" for p now
  proof (cases "shoulderY p")
    case None
    with tb show ?thesis by (simp add: processPose_repStateRef)
  next
    case (Some y)
    with that have "phase (fst (repPhase y (repStateRef ?s))) = Bottom"
      by (simp add: processPose_repStateRef)
    from bottom_step_monotone[OF assms this tb(1,2)] Some show ?thesis
      by (simp add: processPose_repStateRef)
  qed
  with tb show ?thesis by blast
qed

text \<open>
  C10, at a concrete reachable state: after the shoulder heights 0 and 100 the machine is in
  phase bottom, with \<open>topY\<close> and \<open>bottomY\<close> set more than 52 apart.
\<close>

theorem hysteresis_invariant_witness:
  "phase (repStateRef (processFrames [(shoulderPose 0, 0), (shoulderPose 100, 16)] (session0 0)))
     = Bottom \<and>
   (\<exists>t b. topY (repStateRef (processFrames [(shoulderPose 0, 0), (shoulderPose 100, 16)]
              (session0 0))) = Some t \<and>
          bottomY (repStateRef (processFrames [(shoulderPose 0, 0), (shoulderPose 100, 16)]
              (session0 0))) = Some b \<and>
          b - t > 52)"
proof -
  have h: "phase (repStateRef (processFrames [(shoulderPose 0, 0), (shoulderPose 100, 16)]
      (session0 0))) = Bottom"
    by (simp add: run_simps)
  from hysteresis_invariant[OF h] h show ?thesis by blast
qed

section \<open>Skipped frames\<close>

lemma getPoint_None_iff:
  "getPoint p n = None \<longleftrightarrow>
     (\<forall>kp\<in>set (keypoints p). kp_name kp = n \<longrightarrow> kp_score kp \<le> 4 / 10)"
  by (auto simp: getPoint_def find_None_iff)

lemma processPose_missing_shoulder:
  "getPoint p ''left_shoulder'' = None \<or> getPoint p ''right_shoulder'' = None \<Longrightarrow>
   processPose p now s = s"
  by (auto simp: processPose_def split: option.splits)

text \<open>
  C9. When the left or the right shoulder is unavailable in a frame (no keypoint of that
  name has a confidence above 0.4), \<open>processPose\<close> leaves the whole session state unchanged:
  the rep state, the accumulator sequences and everything else.
\<close>

theorem missing_shoulder_skips_frame:
  assumes "(\<forall>kp\<in>set (keypoints p). kp_name kp = ''left_shoulder'' \<longrightarrow> kp_score kp \<le> 4 / 10) \<or>
           (\<forall>kp\<in>set (keypoints p). kp_name kp = ''right_shoulder'' \<longrightarrow> kp_score kp \<le> 4 / 10)"
  shows "processPose p now s = s"
  using assms processPose_missing_shoulder[of p now s]
  by (simp only: getPoint_None_iff[symmetric])

text \<open>
  C9, at a concrete frame: the left shoulder has confidence 0.3, and the state reached after
  one full frame is left as it is.
\<close>

theorem missing_shoulder_skips_frame_witness:
  "getPoint (hiddenShoulderPose 5) ''left_shoulder'' = None \<and>
   processPose (hiddenShoulderPose 5) 5000 (processPose (pushupPose 0) 1000 (session0 0))
     = processPose (pushupPose 0) 1000 (session0 0)"
proof -
  have h: "\<forall>kp\<in>set (keypoints (hiddenShoulderPose 5)).
      kp_name kp = ''left_shoulder'' \<longrightarrow> kp_score kp \<le> 4 / 10"
    by (simp add: hiddenShoulderPose_def joint_def)
  then have "getPoint (hiddenShoulderPose 5) ''left_shoulder'' = None"
    by (simp only: getPoint_None_iff)
  with missing_shoulder_skips_frame[OF disjI1, OF h] show ?thesis
    by (rule conjI[rotated])
qed

section \<open>Accumulation and flush\<close>

lemma accumulate_none:
  "getPoint p ''left_elbow'' = None \<or> getPoint p ''right_elbow'' = None \<or>
   getPoint p ''left_wrist'' = None \<or> getPoint p ''right_wrist'' = None \<Longrightarrow>
   accumulate p l r fs = fs"
  by (auto simp: accumulate_def split: option.splits)

lemma accumulate_all:
  "getPoint p ''left_elbow'' = Some le \<Longrightarrow> getPoint p ''right_elbow'' = Some re \<Longrightarrow>
   getPoint p ''left_wrist'' = Some lw \<Longrightarrow> getPoint p ''right_wrist'' = Some rw \<Longrightarrow>
   accumulate p l r fs =
     fs\<lparr>angles := angles fs @ [fdiv (fadd (calculateAngle l le lw) (calculateAngle r re rw)) 2],
        stacks := stacks fs @
          [fdiv (fadd \<bar>fsub (kp_x l) (kp_x lw)\<bar> \<bar>fsub (kp_x r) (kp_x rw)\<bar>) 2],
        tilts := tilts fs @ [\<bar>fsub (kp_y l) (kp_y r)\<bar>]\<rparr>"
  by (simp add: accumulate_def Let_def)

text \<open>
  With both shoulders found, the accumulation step pushes one entry on each sequence when
  all six joints are there, and nothing otherwise.
\<close>

lemma accumulate_shape:
  assumes "getPoint p ''left_shoulder'' \<noteq> None" "getPoint p ''right_shoulder'' \<noteq> None"
  shows "\<exists>a b c. accumulate p l r fs =
     (if sixJoints p
      then fs\<lparr>angles := angles fs @ [a], stacks := stacks fs @ [b], tilts := tilts fs @ [c]\<rparr>
      else fs)"
proof (cases "sixJoints p")
  case True
  then obtain le re lw rw where "getPoint p ''left_elbow'' = Some le"
    "getPoint p ''right_elbow'' = Some re" "getPoint p ''left_wrist'' = Some lw"
    "getPoint p ''right_wrist'' = Some rw" by (auto simp: sixJoints_def)
  from accumulate_all[OF this, of l r fs] True show ?thesis by auto
next
  case False
  with assms have "getPoint p ''left_elbow'' = None \<or> getPoint p ''right_elbow'' = None \<or>
    getPoint p ''left_wrist'' = None \<or> getPoint p ''right_wrist'' = None"
    by (simp add: sixJoints_def)
  from accumulate_none[OF this, of l r fs] False show ?thesis by simp
qed

lemma processPose_available:
  "getPoint p ''left_shoulder'' = Some l \<Longrightarrow> getPoint p ''right_shoulder'' = Some r \<Longrightarrow>
   formStatsRef (processPose p now s) =
     formStatsRef (flushCheck now (s\<lparr>formStatsRef := accumulate p l r (formStatsRef s)\<rparr>)) \<and>
   ui_feedback (processPose p now s) =
     ui_feedback (flushCheck now (s\<lparr>formStatsRef := accumulate p l r (formStatsRef s)\<rparr>)) \<and>
   ui_score (processPose p now s) =
     ui_score (flushCheck now (s\<lparr>formStatsRef := accumulate p l r (formStatsRef s)\<rparr>))"
  by (simp add: processPose_def flushCheck_def Let_def split: prod.splits)

lemma flushCheck_effect:
  "flushCheck now s =
     (if now - lastFeedbackTime (formStatsRef s) \<ge> 3000 \<and> angles (formStatsRef s) \<noteq> [] \<and>
         stacks (formStatsRef s) \<noteq> [] \<and> tilts (formStatsRef s) \<noteq> []
      then s\<lparr>ui_feedback := fst (interpretForm (average (angles (formStatsRef s)))
                  (average (stacks (formStatsRef s))) (average (tilts (formStatsRef s)))),
             ui_score := snd (interpretForm (average (angles (formStatsRef s)))
                  (average (stacks (formStatsRef s))) (average (tilts (formStatsRef s)))),
             formStatsRef := \<lparr>angles = [], stacks = [], tilts = [], lastFeedbackTime = now\<rparr>\<rparr>
      else s)"
  by (simp add: flushCheck_def flushDue_def Let_def)

text \<open>
  The frame as a whole, with both shoulders found: the statistics \<open>acc\<close> that the flush check
  meets are those of the session with the entries of this frame, and the flush check
  decides on them.
\<close>

lemma processPose_flush:
  assumes "getPoint p ''left_shoulder'' \<noteq> None" "getPoint p ''right_shoulder'' \<noteq> None"
  shows "\<exists>a b c.
     (let fs = formStatsRef s;
          acc = (if sixJoints p
                 then fs\<lparr>angles := angles fs @ [a], stacks := stacks fs @ [b],
                         tilts := tilts fs @ [c]\<rparr>
                 else fs);
          s' = processPose p now s
      in if now - lastFeedbackTime fs \<ge> 3000 \<and>
            angles acc \<noteq> [] \<and> stacks acc \<noteq> [] \<and> tilts acc \<noteq> []
         then (ui_feedback s', ui_score s') =
                interpretForm (average (angles acc)) (average (stacks acc))
                  (average (tilts acc)) \<and>
              formStatsRef s' = \<lparr>angles = [], stacks = [], tilts = [], lastFeedbackTime = now\<rparr>
         else ui_feedback s' = ui_feedback s \<and> ui_score s' = ui_score s \<and>
              formStatsRef s' = acc)"
proof -
  from assms obtain l r where l: "getPoint p ''left_shoulder'' = Some l"
    and r: "getPoint p ''right_shoulder'' = Some r" by auto
  from accumulate_shape[OF assms, of l r "formStatsRef s"]
  obtain a b c where acc: "accumulate p l r (formStatsRef s) =
     (if sixJoints p
      then (formStatsRef s)\<lparr>angles := angles (formStatsRef s) @ [a],
             stacks := stacks (formStatsRef s) @ [b], tilts := tilts (formStatsRef s) @ [c]\<rparr>
      else formStatsRef s)"
    by blast
  have "let fs = formStatsRef s;
          acc = (if sixJoints p
                 then fs\<lparr>angles := angles fs @ [a], stacks := stacks fs @ [b],
                         tilts := tilts fs @ [c]\<rparr>
                 else fs);
          s' = processPose p now s
      in if now - lastFeedbackTime fs \<ge> 3000 \<and>
            angles acc \<noteq> [] \<and> stacks acc \<noteq> [] \<and> tilts acc \<noteq> []
         then (ui_feedback s', ui_score s') =
                interpretForm (average (angles acc)) (average (stacks acc))
                  (average (tilts acc)) \<and>
              formStatsRef s' = \<lparr>angles = [], stacks = [], tilts = [], lastFeedbackTime = now\<rparr>
         else ui_feedback s' = ui_feedback s \<and> ui_score s' = ui_score s \<and>
              formStatsRef s' = acc"
    by (cases "sixJoints p")
      (simp_all add: Let_def processPose_available[OF l r] flushCheck_effect acc prod_eq_iff)
  then show ?thesis by blast
qed

lemma foldl_fadd_exact:
  "(\<And>k. k \<le> length xs \<Longrightarrow> fl (a + sum_list (take k xs)) = a + sum_list (take k xs)) \<Longrightarrow>
   foldl (\<lambda>sum val. fadd sum val) a xs = a + sum_list xs"
proof (induction xs arbitrary: a)
  case Nil
  then show ?case by simp
next
  case (Cons x xs)
  from Cons.prems[of 1] have x: "fadd a x = a + x" by (simp add: fadd_def)
  have "fl (a + x + sum_list (take k xs)) = a + x + sum_list (take k xs)"
    if "k \<le> length xs" for k
    using Cons.prems[of "Suc k"] that by (simp add: add.assoc)
  from Cons.IH[of "a + x", OF this] x show ?case by (simp add: add.assoc)
qed

text \<open>
  When no addition of the running sum rounds and the quotient is a double, \<open>average\<close> is the
  arithmetic mean.
\<close>

lemma average_exact:
  assumes "\<And>k. k \<le> length xs \<Longrightarrow> fl (sum_list (take k xs)) = sum_list (take k xs)"
    and "fl (sum_list xs / real (length xs)) = sum_list xs / real (length xs)"
  shows "average xs = sum_list xs / real (length xs)"
proof -
  have "foldl (\<lambda>sum val. fadd sum val) 0 xs = 0 + sum_list xs"
    by (rule foldl_fadd_exact) (simp add: assms(1))
  with assms(2) show ?thesis by (simp add: average_def fdiv_def)
qed

text \<open>
  A running sum that rounds: the exact mean of these three wrist offsets is above 90, the
  mean that \<open>average\<close> returns is 90.
\<close>

lemma average_rounds: "average [90 + 1 / 2 ^ 46, 90, 90] = 90"
proof -
  define x :: real where "x = 90 + 1 / 2 ^ 46"
  have "fadd 0 x = x" using double_above_90 by (simp only: fadd_def x_def add_0)
  moreover have "fadd x 90 = 180" by (simp only: fadd_def x_def tie_to_even)
  moreover have "fadd 180 90 = 270" "fdiv 270 3 = 90" by (simp_all add: fadd_def fdiv_def)
  ultimately have "average [x, 90, 90] = 90" by (simp add: average_def)
  then show ?thesis by (simp only: x_def)
qed

lemma exact_mean_above_90: "sum_list [90 + 1 / 2 ^ 46, 90, 90] / 3 > (90::real)"
  by simp

lemma processPose_sixJoints:
  assumes "sixJoints p"
  shows "\<exists>a b c. sequences (processPose p now s) =
           (if now - lastFeedbackTime (formStatsRef s) \<ge> 3000 then ([], [], [])
            else (angles (formStatsRef s) @ [a], stacks (formStatsRef s) @ [b],
                  tilts (formStatsRef s) @ [c]))"
proof -
  from assms have sh: "getPoint p ''left_shoulder'' \<noteq> None" "getPoint p ''right_shoulder'' \<noteq> None"
    by (simp_all add: sixJoints_def)
  from processPose_flush[OF sh, of s now] obtain a b c where
    "let fs = formStatsRef s;
         acc = (if sixJoints p
                then fs\<lparr>angles := angles fs @ [a], stacks := stacks fs @ [b],
                        tilts := tilts fs @ [c]\<rparr>
                else fs);
         s' = processPose p now s
     in if now - lastFeedbackTime fs \<ge> 3000 \<and>
           angles acc \<noteq> [] \<and> stacks acc \<noteq> [] \<and> tilts acc \<noteq> []
        then (ui_feedback s', ui_score s') =
               interpretForm (average (angles acc)) (average (stacks acc))
                 (average (tilts acc)) \<and>
             formStatsRef s' = \<lparr>angles = [], stacks = [], tilts = [], lastFeedbackTime = now\<rparr>
        else ui_feedback s' = ui_feedback s \<and> ui_score s' = ui_score s \<and>
             formStatsRef s' = acc"
    by blast
  with assms have "sequences (processPose p now s) =
           (if now - lastFeedbackTime (formStatsRef s) \<ge> 3000 then ([], [], [])
            else (angles (formStatsRef s) @ [a], stacks (formStatsRef s) @ [b],
                  tilts (formStatsRef s) @ [c]))"
    by (simp add: Let_def sequences_def split: if_splits)
  then show ?thesis by blast
qed

lemma processPose_missing_joint:
  assumes "\<not> sixJoints p"
  shows "sequences (processPose p now s) =
           (if bothShoulders p \<and> now - lastFeedbackTime (formStatsRef s) \<ge> 3000 \<and>
               angles (formStatsRef s) \<noteq> [] \<and> stacks (formStatsRef s) \<noteq> [] \<and>
               tilts (formStatsRef s) \<noteq> []
            then ([], [], []) else sequences s)"
proof (cases "bothShoulders p")
  case False
  then have "processPose p now s = s"
    by (intro processPose_missing_shoulder) (auto simp: bothShoulders_def)
  with False show ?thesis by simp
next
  case True
  then have sh: "getPoint p ''left_shoulder'' \<noteq> None" "getPoint p ''right_shoulder'' \<noteq> None"
    by (simp_all add: bothShoulders_def)
  from processPose_flush[OF sh, of s now] assms True show ?thesis
    by (auto simp: Let_def sequences_def split: if_splits)
qed

lemma processPose_equalLengths: "equalLengths s \<Longrightarrow> equalLengths (processPose p now s)"
proof (cases "sixJoints p")
  case True
  assume "equalLengths s"
  with processPose_sixJoints[OF True, of now s] show ?thesis
    by (auto simp: equalLengths_def sequences_def split: if_splits)
next
  case False
  assume "equalLengths s"
  with processPose_missing_joint[OF False, of now s] show ?thesis
    by (auto simp: equalLengths_def sequences_def split: if_splits)
qed

lemma processFrames_equalLengths: "equalLengths s \<Longrightarrow> equalLengths (processFrames fs s)"
  by (induction fs arbitrary: s) (auto simp: processPose_equalLengths)

lemma right_angles:
  "calculateAngle (joint a 0 v) (joint b 0 (v + 1)) (joint c 1 (v + 1)) = 90"
  "calculateAngle (joint a 10 v) (joint b 10 (v + 1)) (joint c 9 (v + 1)) = 90"
  by (simp_all add: calculateAngle_def hypot_def joint_def)

lemmas frame_simps = processPose_def accumulate_def Let_def repPhase_def thresholds
  flushCheck_def flushDue_def average_def interpretForm_def fadd_def fsub_def fdiv_def

lemma first_frame:
  "processPose (pushupPose 0) 1000 (session0 0) =
     \<lparr>repStateRef = \<lparr>phase = Top, topY = Some 0, bottomY = Some 0, repCount = 0\<rparr>,
      formStatsRef = \<lparr>angles = [90], stacks = [1], tilts = [0], lastFeedbackTime = 0\<rparr>,
      ui_repCount = 0,
      ui_feedback = ''Start in a straight high plank and begin your first pushup.'',
      ui_score = 100\<rparr>"
  apply (simp add: pushupPose_def processPose_def accumulate_def Let_def
      right_angles[of _ 0, simplified])
  apply (simp add: session0_def repState0_def frame_simps joint_def)
  done


lemma shoulders_only_frame:
  "processPose (shoulderPose 0) now (processPose (pushupPose 0) 1000 (session0 0)) =
     (if now \<ge> 3000
      then \<lparr>repStateRef = \<lparr>phase = Top, topY = Some 0, bottomY = Some 0, repCount = 0\<rparr>,
            formStatsRef = \<lparr>angles = [], stacks = [], tilts = [], lastFeedbackTime = now\<rparr>,
            ui_repCount = 0,
            ui_feedback = ''Nice elbow bend - controlled 90 deg range.'',
            ui_score = 100\<rparr>
      else processPose (pushupPose 0) 1000 (session0 0))"
  apply (simp add: first_frame)
  apply (simp add: shoulderPose_def processPose_def accumulate_def Let_def)
  apply (simp add: frame_simps joint_def)
  done

lemma sixJoints_pushupPose: "sixJoints (pushupPose v)"
  by (simp add: sixJoints_def pushupPose_def)

lemma not_sixJoints_shoulderPose: "\<not> sixJoints (shoulderPose v)"
  by (simp add: sixJoints_def shoulderPose_def)

lemma bothShoulders_shoulderPose: "bothShoulders (shoulderPose v)"
  by (simp add: bothShoulders_def shoulderPose_def)



text \<open>
  C7, as amended. In a frame with both shoulders, the accumulation step pushes exactly one
  entry on each of the three sequences when all six joints are available, and leaves the
  statistics as they are otherwise. After the whole frame: with six joints the sequences
  have one new entry each, unless 3000 ms have passed and the flush check clears them; with
  a joint missing they are unchanged, unless the flush check of that frame clears them,
  which it does exactly when both shoulders are available, 3000 ms have passed and the
  three sequences are non-empty. Hence the three sequences have equal lengths in every
  state reached from the initial session.
\<close>

theorem accumulator_all_or_nothing:
  "(getPoint p ''left_shoulder'' = Some l \<and> getPoint p ''right_shoulder'' = Some r \<longrightarrow>
      (\<exists>a b c. accumulate p l r fs =
         (if sixJoints p
          then fs\<lparr>angles := angles fs @ [a], stacks := stacks fs @ [b], tilts := tilts fs @ [c]\<rparr>
          else fs))) \<and>
   (sixJoints p \<longrightarrow>
      (\<exists>a b c. sequences (processPose p now s) =
         (if now - lastFeedbackTime (formStatsRef s) \<ge> 3000 then ([], [], [])
          else (angles (formStatsRef s) @ [a], stacks (formStatsRef s) @ [b],
                tilts (formStatsRef s) @ [c])))) \<and>
   (\<not> sixJoints p \<longrightarrow>
      sequences (processPose p now s) =
        (if bothShoulders p \<and> now - lastFeedbackTime (formStatsRef s) \<ge> 3000 \<and>
            angles (formStatsRef s) \<noteq> [] \<and> stacks (formStatsRef s) \<noteq> [] \<and>
            tilts (formStatsRef s) \<noteq> []
         then ([], [], []) else sequences s)) \<and>
   equalLengths (processFrames frames (session0 t0))"
proof (intro conjI impI)
  assume "getPoint p ''left_shoulder'' = Some l \<and> getPoint p ''right_shoulder'' = Some r"
  then have "getPoint p ''left_shoulder'' \<noteq> None" "getPoint p ''right_shoulder'' \<noteq> None"
    by simp_all
  then show "\<exists>a b c. accumulate p l r fs =
         (if sixJoints p
          then fs\<lparr>angles := angles fs @ [a], stacks := stacks fs @ [b], tilts := tilts fs @ [c]\<rparr>
          else fs)"
    by (rule accumulate_shape)
next
  assume "sixJoints p"
  then show "\<exists>a b c. sequences (processPose p now s) =
         (if now - lastFeedbackTime (formStatsRef s) \<ge> 3000 then ([], [], [])
          else (angles (formStatsRef s) @ [a], stacks (formStatsRef s) @ [b],
                tilts (formStatsRef s) @ [c]))"
    by (rule processPose_sixJoints)
next
  assume "\<not> sixJoints p"
  then show "sequences (processPose p now s) =
        (if bothShoulders p \<and> now - lastFeedbackTime (formStatsRef s) \<ge> 3000 \<and>
            angles (formStatsRef s) \<noteq> [] \<and> stacks (formStatsRef s) \<noteq> [] \<and>
            tilts (formStatsRef s) \<noteq> []
         then ([], [], []) else sequences s)"
    by (rule processPose_missing_joint)
next
  have "equalLengths (session0 t0)"
    by (simp add: equalLengths_def session0_def)
  then show "equalLengths (processFrames frames (session0 t0))"
    by (rule processFrames_equalLengths)
qed

text \<open>
  C7, at concrete frames: a frame with six joints pushes one entry on each sequence; a
  following frame with the shoulders only, 1000 ms later, leaves the sequences unchanged.
\<close>

theorem accumulator_all_or_nothing_witness:
  "sixJoints (pushupPose 0) \<and>
   (\<exists>a b c. sequences (processPose (pushupPose 0) 1000 (session0 0)) = ([a], [b], [c])) \<and>
   \<not> sixJoints (shoulderPose 0) \<and> bothShoulders (shoulderPose 0) \<and>
   sequences (processPose (shoulderPose 0) 2000 (processPose (pushupPose 0) 1000 (session0 0)))
     = sequences (processPose (pushupPose 0) 1000 (session0 0)) \<and>
   equalLengths (processFrames [(pushupPose 0, 1000), (shoulderPose 0, 2000)] (session0 0))"
proof -
  let ?s1 = "processPose (pushupPose 0) 1000 (session0 0)"
  have six: "sixJoints (pushupPose 0)" by (rule sixJoints_pushupPose)
  have nsix: "\<not> sixJoints (shoulderPose 0)" by (rule not_sixJoints_shoulderPose)
  have both: "bothShoulders (shoulderPose 0)" by (rule bothShoulders_shoulderPose)
  have t0: "\<not> 1000 - lastFeedbackTime (formStatsRef (session0 0)) \<ge> 3000"
    "sequences (session0 0) = ([], [], [])" "formStatsRef (session0 0) =
      \<lparr>angles = [], stacks = [], tilts = [], lastFeedbackTime = 0\<rparr>"
    by (simp_all add: session0_def sequences_def)
  have t1: "\<not> 2000 - lastFeedbackTime (formStatsRef ?s1) \<ge> 3000"
    by (simp add: first_frame)
  note a = accumulator_all_or_nothing[of "pushupPose 0" l r fs 1000 "session0 0"
      "[(pushupPose 0, 1000), (shoulderPose 0, 2000)]" 0 for l r fs]
  note b = accumulator_all_or_nothing[of "shoulderPose 0" l r fs 2000 ?s1 frames 0
      for l r fs frames]
  from a six t0 have "\<exists>a b c. sequences ?s1 = ([a], [b], [c])"
    by simp
  moreover from b nsix t1 have "sequences (processPose (shoulderPose 0) 2000 ?s1) = sequences ?s1"
    by simp
  moreover from a have
    "equalLengths (processFrames [(pushupPose 0, 1000), (shoulderPose 0, 2000)] (session0 0))"
    by blast
  ultimately show ?thesis using six nsix both by blast
qed

text \<open>
  C7 as stated fails: a frame without elbows and wrists that arrives 3000 ms after the
  last flush, while the sequences are not empty, does not leave them unchanged: the flush
  check of that frame clears them.
\<close>

theorem missing_joint_flush_counterexample:
  "\<not> sixJoints (shoulderPose 0) \<and>
   sequences (processPose (pushupPose 0) 1000 (session0 0)) = ([90], [1], [0]) \<and>
   sequences (processPose (shoulderPose 0) 3000 (processPose (pushupPose 0) 1000 (session0 0)))
     = ([], [], [])"
proof (intro conjI)
  show "\<not> sixJoints (shoulderPose 0)" by (rule not_sixJoints_shoulderPose)
  show "sequences (processPose (pushupPose 0) 1000 (session0 0)) = ([90], [1], [0])"
    by (simp add: first_frame sequences_def)
  show "sequences (processPose (shoulderPose 0) 3000
      (processPose (pushupPose 0) 1000 (session0 0))) = ([], [], [])"
    by (simp add: shoulders_only_frame sequences_def)
qed




end
